theory Spec2Isabelle
  imports Main
begin

section \<open>Data model of the telemetry queue\<close>

text \<open>
  The development embeds \<^verbatim>\<open>TelemetryQueue\<close> and \<^verbatim>\<open>TelemetryRetryManager\<close>
  (packages/cloud/src/telemetry). JavaScript numbers are modelled as unbounded integers:
  timestamps (\<^verbatim>\<open>Date.now()\<close>, milliseconds) are \<open>int\<close>, counters and sizes are \<open>nat\<close>.
  This is exact as long as every value stays below \<open>2^53\<close>. Each queue operation is one
  atomic step on the persisted store; interleavings of concurrently running asynchronous
  calls are not part of the model, and the store's \<^verbatim>\<open>get\<close>/\<^verbatim>\<open>update\<close> are taken to succeed.
\<close>

datatype prop_value = PNum int | PStr string

text \<open>\<^verbatim>\<open>TelemetryEvent\<close> of @roo-code/types: an event name and optional properties. Its
  field \<^verbatim>\<open>event\<close> is called \<open>eventName\<close> here, because the queued record has a field of
  the same name.\<close>

record TelemetryEvent =
  eventName :: string
  properties :: "(string \<times> prop_value) list option"

text \<open>\<^verbatim>\<open>QueuedTelemetryEvent\<close>; the field \<^verbatim>\<open>id\<close> is \<open>id_q\<close>.\<close>

record QueuedTelemetryEvent =
  id_q :: string
  event :: TelemetryEvent
  timestamp :: int
  retryCount :: nat
  lastRetryTimestamp :: "int option"
  error :: "string option"

record TelemetryQueueConfig =
  maxQueueSize :: nat
  maxRetries :: nat
  queueSizeWarningThreshold :: nat

definition DEFAULT_CONFIG :: TelemetryQueueConfig where
  "DEFAULT_CONFIG = \<lparr>maxQueueSize = 1000, maxRetries = 5, queueSizeWarningThreshold = 100\<rparr>"

subsection \<open>The persisted store (\<^verbatim>\<open>context.globalState\<close>)\<close>

datatype store_key = QUEUE_KEY | QUEUE_METADATA_KEY

record StoredMetadata =
  size_m :: nat
  lastUpdated :: int

text \<open>The two slots the queue uses, and the log of the keys passed to
  \<^verbatim>\<open>globalState.update\<close>, in call order.\<close>

record GlobalState =
  telemetryQueue :: "QueuedTelemetryEvent list option"
  telemetryQueueMetadata :: "StoredMetadata option"
  updates :: "store_key list"

definition emptyState :: GlobalState where
  "emptyState = \<lparr>telemetryQueue = None, telemetryQueueMetadata = None, updates = []\<rparr>"

definition getQueue :: "GlobalState \<Rightarrow> QueuedTelemetryEvent list" where
  "getQueue gs = (case telemetryQueue gs of None \<Rightarrow> [] | Some q \<Rightarrow> q)"

definition saveQueue :: "GlobalState \<Rightarrow> QueuedTelemetryEvent list \<Rightarrow> GlobalState" where
  "saveQueue gs queue = gs\<lparr>telemetryQueue := Some queue, updates := updates gs @ [QUEUE_KEY]\<rparr>"

definition updateMetadata :: "GlobalState \<Rightarrow> QueuedTelemetryEvent list \<Rightarrow> int \<Rightarrow> GlobalState" where
  "updateMetadata gs queue now =
     gs\<lparr>telemetryQueueMetadata := Some \<lparr>size_m = length queue, lastUpdated = now\<rparr>,
        updates := updates gs @ [QUEUE_METADATA_KEY]\<rparr>"

subsection \<open>Identifiers\<close>

definition digit_char :: "nat \<Rightarrow> char" where
  "digit_char d = char_of (48 + d)"

text \<open>The decimal digits of a number, most significant first, in front of \<open>acc\<close>.\<close>

fun decimal_digits :: "nat \<Rightarrow> string \<Rightarrow> string" where
  "decimal_digits n acc =
     (if n < 10 then digit_char n # acc
      else decimal_digits (n div 10) (digit_char (n mod 10) # acc))"

declare decimal_digits.simps [simp del]

text \<open>How a template literal renders an integral number.\<close>

definition number_to_string :: "int \<Rightarrow> string" where
  "number_to_string i =
     (if i < 0 then CHR ''-'' # decimal_digits (nat (- i)) [] else decimal_digits (nat i) [])"

text \<open>\<^verbatim>\<open>generateId\<close>: the clock reading in decimal, a dash, and the random suffix
  \<^verbatim>\<open>Math.random().toString(36).substring(2, 9)\<close>, which is an input here.\<close>

definition generateId :: "int \<Rightarrow> string \<Rightarrow> string" where
  "generateId now rnd = number_to_string now @ ''-'' @ rnd"

subsection \<open>Queue operations\<close>

text \<open>\<^verbatim>\<open>Array.prototype.shift\<close>: drops index 0; nothing happens on an empty array.\<close>

definition shift :: "'a list \<Rightarrow> 'a list" where
  "shift queue = (case queue of [] \<Rightarrow> [] | _ # rest \<Rightarrow> rest)"

text \<open>The values one call of \<^verbatim>\<open>enqueue\<close> reads from its environment: the clock inside
  \<^verbatim>\<open>generateId\<close>, the random suffix, the clock for \<^verbatim>\<open>timestamp\<close>, and the clock inside
  \<^verbatim>\<open>updateMetadata\<close>.\<close>

record EnqueueReads =
  idNow :: int
  rnd :: string
  tsNow :: int
  metaNow :: int

definition newQueuedEvent :: "TelemetryEvent \<Rightarrow> string option \<Rightarrow> EnqueueReads \<Rightarrow> QueuedTelemetryEvent" where
  "newQueuedEvent ev err r =
     \<lparr>id_q = generateId (idNow r) (rnd r), event = ev, timestamp = tsNow r, retryCount = 0,
      lastRetryTimestamp = None, error = err\<rparr>"

definition enqueue ::
  "TelemetryQueueConfig \<Rightarrow> GlobalState \<Rightarrow> TelemetryEvent \<Rightarrow> string option \<Rightarrow> EnqueueReads \<Rightarrow> GlobalState" where
  "enqueue cfg gs ev err r =
     (let queue = getQueue gs;
          queue1 = (if length queue \<ge> maxQueueSize cfg then shift queue else queue);
          queue2 = queue1 @ [newQueuedEvent ev err r]
      in updateMetadata (saveQueue gs queue2) queue2 (metaNow r))"

text \<open>The filter predicate of \<^verbatim>\<open>getEventsForRetry\<close>. The test \<^verbatim>\<open>!item.lastRetryTimestamp\<close>
  is JavaScript truthiness of an optional number: it holds for \<^verbatim>\<open>undefined\<close> and for \<open>0\<close>.\<close>

definition readyForRetry :: "TelemetryQueueConfig \<Rightarrow> int \<Rightarrow> QueuedTelemetryEvent \<Rightarrow> bool" where
  "readyForRetry cfg now item =
     (if retryCount item \<ge> maxRetries cfg then False
      else (case lastRetryTimestamp item of
              None \<Rightarrow> True
            | Some t \<Rightarrow>
                if t = 0 then True
                else (let backoffMs = 2 ^ retryCount item * 1000;
                          nextRetryTime = t + backoffMs
                      in now \<ge> nextRetryTime)))"

definition getEventsForRetry :: "TelemetryQueueConfig \<Rightarrow> GlobalState \<Rightarrow> int \<Rightarrow> QueuedTelemetryEvent list" where
  "getEventsForRetry cfg gs now = filter (readyForRetry cfg now) (getQueue gs)"

text \<open>\<^verbatim>\<open>Array.prototype.findIndex\<close>, with \<open>None\<close> for \<open>-1\<close>.\<close>

fun findIndex :: "('a \<Rightarrow> bool) \<Rightarrow> 'a list \<Rightarrow> nat option" where
  "findIndex P [] = None"
| "findIndex P (x # xs) = (if P x then Some 0 else map_option Suc (findIndex P xs))"

text \<open>\<^verbatim>\<open>queue.splice(index, 1)\<close>.\<close>

definition splice1 :: "'a list \<Rightarrow> nat \<Rightarrow> 'a list" where
  "splice1 queue index = take index queue @ drop (Suc index) queue"

definition recordFailure :: "QueuedTelemetryEvent \<Rightarrow> int \<Rightarrow> string option \<Rightarrow> QueuedTelemetryEvent" where
  "recordFailure item now err =
     item\<lparr>retryCount := retryCount item + 1, lastRetryTimestamp := Some now, error := err\<rparr>"

text \<open>\<open>attemptNow\<close> is the clock read for \<^verbatim>\<open>lastRetryTimestamp\<close>, \<open>metaNow'\<close> the one read
  inside \<^verbatim>\<open>updateMetadata\<close>.\<close>

definition updateEventAfterRetry ::
  "GlobalState \<Rightarrow> string \<Rightarrow> bool \<Rightarrow> string option \<Rightarrow> int \<Rightarrow> int \<Rightarrow> GlobalState" where
  "updateEventAfterRetry gs ident success err attemptNow metaNow' =
     (let queue = getQueue gs in
      case findIndex (\<lambda>item. id_q item = ident) queue of
        None \<Rightarrow> gs
      | Some index \<Rightarrow>
          (let queue' = (if success then splice1 queue index
                         else queue[index := recordFailure (queue ! index) attemptNow err])
           in updateMetadata (saveQueue gs queue') queue' metaNow'))"

definition getQueueSize :: "GlobalState \<Rightarrow> nat" where
  "getQueueSize gs = length (getQueue gs)"

record QueueMetadata =
  size_q :: nat
  oldestEventTimestamp :: "int option"
  newestEventTimestamp :: "int option"
  isAboveWarningThreshold :: bool

definition getQueueMetadata :: "TelemetryQueueConfig \<Rightarrow> GlobalState \<Rightarrow> QueueMetadata" where
  "getQueueMetadata cfg gs =
     (let queue = getQueue gs; size = length queue in
      \<lparr>size_q = size,
       oldestEventTimestamp = (if queue = [] then None else Some (timestamp (hd queue))),
       newestEventTimestamp = (if queue = [] then None else Some (timestamp (last queue))),
       isAboveWarningThreshold = (size \<ge> queueSizeWarningThreshold cfg)\<rparr>)"

definition clear :: "GlobalState \<Rightarrow> GlobalState" where
  "clear gs =
     (saveQueue gs [])\<lparr>telemetryQueueMetadata := None,
                       updates := updates (saveQueue gs []) @ [QUEUE_METADATA_KEY]\<rparr>"

definition pruneFailedEvents :: "TelemetryQueueConfig \<Rightarrow> GlobalState \<Rightarrow> int \<Rightarrow> GlobalState \<times> nat" where
  "pruneFailedEvents cfg gs metaNow' =
     (let queue = getQueue gs;
          originalSize = length queue;
          prunedQueue = filter (\<lambda>item. retryCount item < maxRetries cfg) queue
      in (if length prunedQueue \<noteq> originalSize
          then updateMetadata (saveQueue gs prunedQueue) prunedQueue metaNow'
          else gs,
          originalSize - length prunedQueue))"

definition getAllEvents :: "GlobalState \<Rightarrow> QueuedTelemetryEvent list" where
  "getAllEvents gs = getQueue gs"

section \<open>The retry manager\<close>

text \<open>
  The manager runs on one logical timeline. What it reads from outside is given by an
  environment of oracles, indexed by how many reads of that kind came before: the clock,
  the random suffix of \<^verbatim>\<open>generateId\<close>, and the injected send function, whose \<open>k\<close>-th
  call resolves (\<open>None\<close>) or rejects with a thrown value. Every send is taken to settle and
  the two observer callbacks to return normally; \<^verbatim>\<open>console.log\<close> and the timer
  (\<^verbatim>\<open>start\<close>, \<^verbatim>\<open>stop\<close>) are left out. A queue call
  advances the clock counter by the largest number of reads that call can make.
\<close>

text \<open>A thrown value: an \<^verbatim>\<open>Error\<close> with its message; another value with its
  \<^verbatim>\<open>String(...)\<close> rendering; or another value whose conversion by \<^verbatim>\<open>String(...)\<close> itself
  throws (an object without a primitive conversion, such as one with a null prototype),
  together with what that conversion throws.\<close>

datatype thrown = ErrorObject string | OtherValue string | Unrenderable thrown

text \<open>\<^verbatim>\<open>error instanceof Error ? error.message : String(error)\<close>: the message (\<open>Inr\<close>), or
  what evaluating the expression throws (\<open>Inl\<close>).\<close>

fun errorMessage :: "thrown \<Rightarrow> thrown + string" where
  "errorMessage (ErrorObject msg) = Inr msg"
| "errorMessage (OtherValue s) = Inr s"
| "errorMessage (Unrenderable t) = Inl t"

record Env =
  clock :: "nat \<Rightarrow> int"
  random :: "nat \<Rightarrow> string"
  sendEvent :: "nat \<Rightarrow> TelemetryEvent \<Rightarrow> thrown option"

text \<open>\<^verbatim>\<open>RetryManagerConfig\<close>; an optional callback is the flag saying whether it was
  supplied, and its invocations are recorded in the manager's trace.\<close>

record RetryManagerConfig =
  retryIntervalMs :: nat
  batchSize :: nat
  onConnectionStatusChange :: bool
  onQueueSizeChange :: bool

datatype observation =
    ConnectionStatusChange bool
  | QueueSizeChange nat bool
  | UpdateEventAfterRetry string bool "string option"

text \<open>The manager's fields, the persisted state of its queue, the read counters of the
  environment, and the trace of calls to the callbacks and to
  \<^verbatim>\<open>queue.updateEventAfterRetry\<close>.\<close>

record RetryManager =
  store :: GlobalState
  isProcessing :: bool
  isConnected :: bool
  lastConnectionCheck :: int
  clockReads :: nat
  randomReads :: nat
  sendCalls :: nat
  trace :: "observation list"

definition connectionCheckInterval :: int where
  "connectionCheckInterval = 60000"

definition newManager :: "GlobalState \<Rightarrow> RetryManager" where
  "newManager gs =
     \<lparr>store = gs, isProcessing = False, isConnected = True, lastConnectionCheck = 0,
      clockReads = 0, randomReads = 0, sendCalls = 0, trace = []\<rparr>"

definition updateConnectionStatus :: "RetryManagerConfig \<Rightarrow> RetryManager \<Rightarrow> bool \<Rightarrow> RetryManager" where
  "updateConnectionStatus cfg m connected =
     (if isConnected m = connected then m
      else (let m1 = m\<lparr>isConnected := connected\<rparr> in
            if onConnectionStatusChange cfg
            then m1\<lparr>trace := trace m1 @ [ConnectionStatusChange connected]\<rparr>
            else m1))"

definition notifyQueueSizeChange ::
  "TelemetryQueueConfig \<Rightarrow> RetryManagerConfig \<Rightarrow> RetryManager \<Rightarrow> RetryManager" where
  "notifyQueueSizeChange qcfg cfg m =
     (let metadata = getQueueMetadata qcfg (store m) in
      if onQueueSizeChange cfg
      then m\<lparr>trace := trace m @ [QueueSizeChange (size_q metadata) (isAboveWarningThreshold metadata)]\<rparr>
      else m)"

text \<open>Truthiness of an optional string: \<^verbatim>\<open>undefined\<close> and the empty string are falsy.\<close>

definition truthy_str :: "string option \<Rightarrow> bool" where
  "truthy_str v = (case v of None \<Rightarrow> False | Some s \<Rightarrow> s \<noteq> [])"

definition queueFailedEvent ::
  "Env \<Rightarrow> TelemetryQueueConfig \<Rightarrow> RetryManagerConfig \<Rightarrow> RetryManager \<Rightarrow> TelemetryEvent \<Rightarrow> string option
     \<Rightarrow> RetryManager" where
  "queueFailedEvent env qcfg cfg m ev err =
     (let k = clockReads m;
          r = \<lparr>idNow = clock env k, rnd = random env (randomReads m),
               tsNow = clock env (k + 1), metaNow = clock env (k + 2)\<rparr>;
          m1 = m\<lparr>store := enqueue qcfg (store m) ev err r, clockReads := k + 3,
                 randomReads := Suc (randomReads m)\<rparr>;
          m2 = (if truthy_str err \<and> isConnected m1 then updateConnectionStatus cfg m1 False else m1)
      in notifyQueueSizeChange qcfg cfg m2)"

definition getConnectionStatus :: "RetryManager \<Rightarrow> bool" where
  "getConnectionStatus m = isConnected m"

subsection \<open>Dispatching a batch\<close>

record DispatchOutcome =
  out_id :: string
  out_success :: bool
  out_error :: "string option"

text \<open>An entry of the array \<^verbatim>\<open>Promise.allSettled\<close> returns.\<close>

datatype settled = Fulfilled DispatchOutcome | Rejected thrown

text \<open>The asynchronous task of one event: the \<^verbatim>\<open>try\<close> branch returns the success record,
  the \<^verbatim>\<open>catch\<close> branch the failure record with the message of what was thrown. When
  computing that message throws inside the \<^verbatim>\<open>catch\<close> block, the task rejects with what
  was thrown there.\<close>

definition dispatchTask :: "Env \<Rightarrow> nat \<Rightarrow> QueuedTelemetryEvent \<Rightarrow> settled" where
  "dispatchTask env k queuedEvent =
     (case sendEvent env k (event queuedEvent) of
        None \<Rightarrow> Fulfilled \<lparr>out_id = id_q queuedEvent, out_success = True, out_error = None\<rparr>
      | Some thrownValue \<Rightarrow>
          (case errorMessage thrownValue of
             Inr msg \<Rightarrow>
               Fulfilled \<lparr>out_id = id_q queuedEvent, out_success = False, out_error = Some msg\<rparr>
           | Inl rethrown \<Rightarrow> Rejected rethrown))"

text \<open>\<^verbatim>\<open>batch.map\<close> starts the tasks in batch order, so the event at position \<open>j\<close> gets send
  call number \<open>k + j\<close>; the settled results come back in batch order.\<close>

fun dispatchAll :: "Env \<Rightarrow> nat \<Rightarrow> QueuedTelemetryEvent list \<Rightarrow> settled list" where
  "dispatchAll env k [] = []"
| "dispatchAll env k (queuedEvent # rest) = dispatchTask env k queuedEvent # dispatchAll env (Suc k) rest"

definition callUpdateEventAfterRetry ::
  "Env \<Rightarrow> RetryManager \<Rightarrow> string \<Rightarrow> bool \<Rightarrow> string option \<Rightarrow> RetryManager" where
  "callUpdateEventAfterRetry env m ident success err =
     (let k = clockReads m in
      m\<lparr>store := updateEventAfterRetry (store m) ident success err (clock env k) (clock env (k + 1)),
        clockReads := k + 2,
        trace := trace m @ [UpdateEventAfterRetry ident success err]\<rparr>)"

text \<open>The loop over the settled results, carrying the manager and the two counters.\<close>

fun applyResults :: "Env \<Rightarrow> settled list \<Rightarrow> RetryManager \<times> nat \<times> nat \<Rightarrow> RetryManager \<times> nat \<times> nat" where
  "applyResults env [] acc = acc"
| "applyResults env (Fulfilled v # rest) (m, successCount, failureCount) =
     applyResults env rest
       (callUpdateEventAfterRetry env m (out_id v) (out_success v) (out_error v),
        (if out_success v then successCount + 1 else successCount),
        (if out_success v then failureCount else failureCount + 1))"
| "applyResults env (Rejected _ # rest) acc = applyResults env rest acc"

definition processBatch ::
  "Env \<Rightarrow> RetryManagerConfig \<Rightarrow> RetryManager \<Rightarrow> QueuedTelemetryEvent list \<Rightarrow> RetryManager" where
  "processBatch env cfg m batch =
     (let results = dispatchAll env (sendCalls m) batch;
          m1 = m\<lparr>sendCalls := sendCalls m + length batch\<rparr>
      in case applyResults env results (m1, 0, 0) of
           (m2, successCount, failureCount) \<Rightarrow>
             if successCount > 0 \<and> \<not> isConnected m2 then updateConnectionStatus cfg m2 True
             else if failureCount = length batch \<and> isConnected m2 then updateConnectionStatus cfg m2 False
             else m2)"

fun processBatches ::
  "Env \<Rightarrow> RetryManagerConfig \<Rightarrow> RetryManager \<Rightarrow> QueuedTelemetryEvent list list \<Rightarrow> RetryManager" where
  "processBatches env cfg m [] = m"
| "processBatches env cfg m (batch # rest) = processBatches env cfg (processBatch env cfg m batch) rest"

definition connectionCheckEvent :: "int \<Rightarrow> TelemetryEvent" where
  "connectionCheckEvent now =
     \<lparr>eventName = ''telemetry_connection_check'', properties = Some [(''timestamp'', PNum now)]\<rparr>"

definition checkConnectionStatus :: "Env \<Rightarrow> RetryManagerConfig \<Rightarrow> RetryManager \<Rightarrow> RetryManager" where
  "checkConnectionStatus env cfg m =
     (let now = clock env (clockReads m);
          m0 = m\<lparr>clockReads := Suc (clockReads m)\<rparr>
      in if now - lastConnectionCheck m0 < connectionCheckInterval then m0
         else (let m1 = m0\<lparr>lastConnectionCheck := now, sendCalls := Suc (sendCalls m0)\<rparr> in
               case sendEvent env (sendCalls m0) (connectionCheckEvent now) of
                 None \<Rightarrow> if \<not> isConnected m1 then updateConnectionStatus cfg m1 True else m1
               | Some _ \<Rightarrow> if isConnected m1 then updateConnectionStatus cfg m1 False else m1))"

subsection \<open>The processing cycle\<close>

text \<open>\<^verbatim>\<open>items.slice(i, j)\<close> for \<open>0 \<le> i \<le> j\<close>.\<close>

definition slice :: "'a list \<Rightarrow> nat \<Rightarrow> nat \<Rightarrow> 'a list" where
  "slice items i j = take (j - i) (drop i items)"

text \<open>The loop of \<^verbatim>\<open>createBatches\<close>. With a batch size of \<open>0\<close> and a non-empty input the
  index never advances and the loop does not end: the result is \<open>None\<close>.\<close>

partial_function (option) createBatches_loop ::
  "'a list \<Rightarrow> nat \<Rightarrow> nat \<Rightarrow> 'a list list \<Rightarrow> 'a list list option" where
  "createBatches_loop items bsize i batches =
     (if i < length items
      then createBatches_loop items bsize (i + bsize) (batches @ [slice items i (i + bsize)])
      else Some batches)"

declare createBatches_loop.simps [code]

definition createBatches :: "'a list \<Rightarrow> nat \<Rightarrow> 'a list list option" where
  "createBatches items bsize = createBatches_loop items bsize 0 []"

text \<open>\<^verbatim>\<open>processQueue\<close>; \<open>None\<close> when the cycle never returns. The \<^verbatim>\<open>finally\<close> block resets
  \<^verbatim>\<open>isProcessing\<close> on both exits of the \<^verbatim>\<open>try\<close> block.\<close>

definition processQueue ::
  "Env \<Rightarrow> TelemetryQueueConfig \<Rightarrow> RetryManagerConfig \<Rightarrow> RetryManager \<Rightarrow> RetryManager option" where
  "processQueue env qcfg cfg m =
     (if isProcessing m then Some m
      else (let m1 = m\<lparr>isProcessing := True\<rparr> in
            case pruneFailedEvents qcfg (store m1) (clock env (clockReads m1)) of
              (gs', prunedCount) \<Rightarrow>
                (let m2 = m1\<lparr>store := gs', clockReads := Suc (clockReads m1)\<rparr>;
                     eventsToRetry = getEventsForRetry qcfg (store m2) (clock env (clockReads m2));
                     m3 = m2\<lparr>clockReads := Suc (clockReads m2)\<rparr>
                 in if eventsToRetry = [] then Some (m3\<lparr>isProcessing := False\<rparr>)
                    else (case createBatches eventsToRetry (batchSize cfg) of
                            None \<Rightarrow> None
                          | Some batches \<Rightarrow>
                              (let m4 = processBatches env cfg m3 batches;
                                   m5 = checkConnectionStatus env cfg m4;
                                   m6 = notifyQueueSizeChange qcfg cfg m5
                               in Some (m6\<lparr>isProcessing := False\<rparr>))))))"

definition triggerRetry ::
  "Env \<Rightarrow> TelemetryQueueConfig \<Rightarrow> RetryManagerConfig \<Rightarrow> RetryManager \<Rightarrow> RetryManager option" where
  "triggerRetry env qcfg cfg m = processQueue env qcfg cfg m"

section \<open>Call sequences and sample inputs\<close>

text \<open>A sequence of \<^verbatim>\<open>enqueue\<close> calls, each with its arguments and what it reads from the
  clock and the random source; \<open>queuedOf\<close> is the entry a call appends.\<close>

fun enqueueAll ::
  "TelemetryQueueConfig \<Rightarrow> GlobalState \<Rightarrow> (TelemetryEvent \<times> string option \<times> EnqueueReads) list
     \<Rightarrow> GlobalState" where
  "enqueueAll cfg gs [] = gs"
| "enqueueAll cfg gs ((ev, err, r) # rest) = enqueueAll cfg (enqueue cfg gs ev err r) rest"

fun queuedOf :: "TelemetryEvent \<times> string option \<times> EnqueueReads \<Rightarrow> QueuedTelemetryEvent" where
  "queuedOf (ev, err, r) = newQueuedEvent ev err r"

definition taskEvent :: "string \<Rightarrow> TelemetryEvent" where
  "taskEvent taskId = \<lparr>eventName = ''Task Created'', properties = Some [(''taskId'', PStr taskId)]\<rparr>"

definition readsAt :: "int \<Rightarrow> string \<Rightarrow> EnqueueReads" where
  "readsAt t suffix = \<lparr>idNow = t, rnd = suffix, tsNow = t, metaNow = t\<rparr>"

definition zeroCapacity :: TelemetryQueueConfig where
  "zeroCapacity = \<lparr>maxQueueSize = 0, maxRetries = 5, queueSizeWarningThreshold = 100\<rparr>"

definition smallConfig :: TelemetryQueueConfig where
  "smallConfig = \<lparr>maxQueueSize = 3, maxRetries = 5, queueSizeWarningThreshold = 2\<rparr>"

definition fourCalls :: "(TelemetryEvent \<times> string option \<times> EnqueueReads) list" where
  "fourCalls =
     [(taskEvent ''test-0'', None, readsAt 100 ''aaaaaaa''),
      (taskEvent ''test-1'', None, readsAt 101 ''bbbbbbb''),
      (taskEvent ''test-2'', Some ''Network error'', readsAt 102 ''ccccccc''),
      (taskEvent ''test-3'', None, readsAt 103 ''ddddddd'')]"

definition exhaustedEvent :: QueuedTelemetryEvent where
  "exhaustedEvent =
     \<lparr>id_q = ''100-aaaaaaa'', event = taskEvent ''test-0'', timestamp = 100, retryCount = 5,
      lastRetryTimestamp = Some 40000, error = Some ''Error 4''\<rparr>"

definition failedAtZero :: QueuedTelemetryEvent where
  "failedAtZero =
     \<lparr>id_q = ''0-bbbbbbb'', event = taskEvent ''test-1'', timestamp = 0, retryCount = 1,
      lastRetryTimestamp = Some 0, error = Some ''Error 1''\<rparr>"

definition freshEvent :: QueuedTelemetryEvent where
  "freshEvent =
     \<lparr>id_q = ''102-ccccccc'', event = taskEvent ''test-2'', timestamp = 102, retryCount = 0,
      lastRetryTimestamp = None, error = Some ''Network error''\<rparr>"

definition storeOf :: "QueuedTelemetryEvent list \<Rightarrow> GlobalState" where
  "storeOf queue = \<lparr>telemetryQueue = Some queue, telemetryQueueMetadata = None, updates = []\<rparr>"

section \<open>Observations of a run\<close>

text \<open>What the statements below read off a manager's trace: the values passed to the
  connection-status callback, and the arguments of the calls to
  \<^verbatim>\<open>queue.updateEventAfterRetry\<close>, each in call order.\<close>

fun statusCallbacks :: "observation list \<Rightarrow> bool list" where
  "statusCallbacks [] = []"
| "statusCallbacks (ConnectionStatusChange b # rest) = b # statusCallbacks rest"
| "statusCallbacks (_ # rest) = statusCallbacks rest"

fun retryUpdates :: "observation list \<Rightarrow> (string \<times> bool \<times> string option) list" where
  "retryUpdates [] = []"
| "retryUpdates (UpdateEventAfterRetry ident success err # rest) = (ident, success, err) # retryUpdates rest"
| "retryUpdates (_ # rest) = retryUpdates rest"

text \<open>The observations a step from \<open>m\<close> to \<open>m'\<close> added, and that it only added.\<close>

definition newObservations :: "RetryManager \<Rightarrow> RetryManager \<Rightarrow> observation list" where
  "newObservations m m' = drop (length (trace m)) (trace m')"

definition extendsTrace :: "RetryManager \<Rightarrow> RetryManager \<Rightarrow> bool" where
  "extendsTrace m m' = (take (length (trace m)) (trace m') = trace m)"

fun isFulfilled :: "settled \<Rightarrow> bool" where
  "isFulfilled (Fulfilled _) = True"
| "isFulfilled (Rejected _) = False"

text \<open>The values of the fulfilled entries, which are the ones the result loop acts on.\<close>

fun fulfilledValues :: "settled list \<Rightarrow> DispatchOutcome list" where
  "fulfilledValues [] = []"
| "fulfilledValues (Fulfilled v # rest) = v # fulfilledValues rest"
| "fulfilledValues (Rejected _ # rest) = fulfilledValues rest"

definition batchOutcomes :: "Env \<Rightarrow> nat \<Rightarrow> QueuedTelemetryEvent list \<Rightarrow> DispatchOutcome list" where
  "batchOutcomes env k batch = fulfilledValues (dispatchAll env k batch)"

text \<open>A thrown value is renderable when the \<^verbatim>\<open>catch\<close> block can compute its message.\<close>

definition renderable :: "thrown \<Rightarrow> bool" where
  "renderable v = (case errorMessage v of Inr _ \<Rightarrow> True | Inl _ \<Rightarrow> False)"

text \<open>The queue updates for a list of outcomes, applied in order; each takes two clock
  readings, starting at reading \<open>k\<close>.\<close>

fun applyUpdates :: "Env \<Rightarrow> nat \<Rightarrow> GlobalState \<Rightarrow> DispatchOutcome list \<Rightarrow> GlobalState" where
  "applyUpdates env k gs [] = gs"
| "applyUpdates env k gs (v # rest) =
     applyUpdates env (k + 2)
       (updateEventAfterRetry gs (out_id v) (out_success v) (out_error v) (clock env k) (clock env (k + 1)))
       rest"

text \<open>One status-updating step is edge-triggered when the callback was called once with
  the new status if the status changed and a callback is registered, and not at all
  otherwise.\<close>

definition edgeTriggered :: "RetryManagerConfig \<Rightarrow> RetryManager \<Rightarrow> RetryManager \<Rightarrow> bool" where
  "edgeTriggered cfg m m' =
     (extendsTrace m m' \<and>
      statusCallbacks (newObservations m m') =
        (if onConnectionStatusChange cfg \<and> isConnected m' \<noteq> isConnected m then [isConnected m'] else []))"

text \<open>Over several steps: each reported value differs from the status before it (the
  initial status, then the value reported last), and the final status is the value
  reported last.\<close>

fun alternating :: "bool \<Rightarrow> bool list \<Rightarrow> bool" where
  "alternating s [] = True"
| "alternating s (v # vs) = (v \<noteq> s \<and> alternating v vs)"

definition edgeTriggeredRun :: "RetryManagerConfig \<Rightarrow> RetryManager \<Rightarrow> RetryManager \<Rightarrow> bool" where
  "edgeTriggeredRun cfg m m' =
     (extendsTrace m m' \<and>
      (if onConnectionStatusChange cfg
       then alternating (isConnected m) (statusCallbacks (newObservations m m'))
            \<and> isConnected m' = last (isConnected m # statusCallbacks (newObservations m m'))
       else statusCallbacks (newObservations m m') = []))"

subsection \<open>Sample environments\<close>

definition quietEnv :: Env where
  "quietEnv = \<lparr>clock = (\<lambda>k. 50000 + int k), random = (\<lambda>k. ''zzzzzzz''), sendEvent = (\<lambda>k ev. None)\<rparr>"

definition failingEnv :: Env where
  "failingEnv =
     \<lparr>clock = (\<lambda>k. 50000 + int k), random = (\<lambda>k. ''zzzzzzz''),
      sendEvent = (\<lambda>k ev. Some (ErrorObject ''Network error''))\<rparr>"

definition mixedEnv :: Env where
  "mixedEnv =
     \<lparr>clock = (\<lambda>k. 50000 + int k), random = (\<lambda>k. ''zzzzzzz''),
      sendEvent = (\<lambda>k ev. if k = 0 then None else Some (ErrorObject ''Network error''))\<rparr>"

text \<open>Every send rejects with an object that \<^verbatim>\<open>String(...)\<close> cannot convert; the conversion
  throws a \<^verbatim>\<open>TypeError\<close>.\<close>

definition unrenderableEnv :: Env where
  "unrenderableEnv =
     \<lparr>clock = (\<lambda>k. 50000 + int k), random = (\<lambda>k. ''zzzzzzz''),
      sendEvent = (\<lambda>k ev. Some (Unrenderable (ErrorObject ''Cannot convert object to primitive value'')))\<rparr>"

definition notifyingConfig :: RetryManagerConfig where
  "notifyingConfig =
     \<lparr>retryIntervalMs = 30000, batchSize = 10, onConnectionStatusChange = True, onQueueSizeChange = True\<rparr>"

section \<open>Properties of the queue\<close>

lemma getQueue_saveQueue [simp]: "getQueue (saveQueue gs q) = q"
  by (simp add: getQueue_def saveQueue_def)

lemma getQueue_updateMetadata [simp]: "getQueue (updateMetadata gs q now) = getQueue gs"
  by (simp add: getQueue_def updateMetadata_def)

lemma getQueue_emptyState: "getQueue emptyState = []"
  by (simp add: getQueue_def emptyState_def)

lemma getQueue_storeOf: "getQueue (storeOf q) = q"
  by (simp add: getQueue_def storeOf_def)

lemma updates_storeOf: "updates (storeOf q) = []"
  by (simp add: storeOf_def)

lemma updates_save_meta:
  "updates (updateMetadata (saveQueue gs q) q now) = updates gs @ [QUEUE_KEY, QUEUE_METADATA_KEY]"
  by (simp add: updateMetadata_def saveQueue_def)

subsection \<open>Capacity and eviction\<close>

lemma shift_eq_drop: "shift q = drop 1 q"
  by (cases q) (simp_all add: shift_def)

lemma getQueue_enqueue:
  "getQueue (enqueue cfg gs ev err r) =
     (if length (getQueue gs) \<ge> maxQueueSize cfg then drop 1 (getQueue gs) else getQueue gs)
       @ [newQueuedEvent ev err r]"
  by (simp add: enqueue_def Let_def shift_eq_drop)

lemma getQueue_enqueue_drop:
  assumes "1 \<le> maxQueueSize cfg" "length (getQueue gs) \<le> maxQueueSize cfg"
  shows "getQueue (enqueue cfg gs ev err r) =
           drop (length (getQueue gs) + 1 - maxQueueSize cfg) (getQueue gs @ [newQueuedEvent ev err r])"
  using assms by (auto simp: getQueue_enqueue)

text \<open>Starting from any queue within capacity, a run of calls leaves the newest entries
  of the old queue followed by the new ones.\<close>

lemma getQueue_enqueueAll:
  assumes "1 \<le> maxQueueSize cfg" "length (getQueue gs) \<le> maxQueueSize cfg"
  shows "getQueue (enqueueAll cfg gs calls) =
           drop (length (getQueue gs) + length calls - maxQueueSize cfg)
                (getQueue gs @ map queuedOf calls)"
  using assms
proof (induction calls arbitrary: gs)
  case Nil
  then show ?case by simp
next
  case (Cons c calls)
  obtain ev err r where c: "c = (ev, err, r)" by (cases c) auto
  let ?gs' = "enqueue cfg gs ev err r"
  let ?x = "newQueuedEvent ev err r"
  have q': "getQueue ?gs' = drop (length (getQueue gs) + 1 - maxQueueSize cfg) (getQueue gs @ [?x])"
    using Cons.prems by (rule getQueue_enqueue_drop)
  have len': "length (getQueue ?gs') \<le> maxQueueSize cfg"
    using Cons.prems by (simp add: q')
  have ih: "getQueue (enqueueAll cfg ?gs' calls) =
      drop (length (getQueue ?gs') + length calls - maxQueueSize cfg) (getQueue ?gs' @ map queuedOf calls)"
    using Cons.IH [OF Cons.prems(1) len'] .
  show ?case
  proof (cases "length (getQueue gs) = maxQueueSize cfg")
    case True
    then show ?thesis using Cons.prems ih
      by (cases "getQueue gs") (simp_all add: c q')
  next
    case False
    then show ?thesis using Cons.prems ih
      by (simp add: c q')
  qed
qed

text \<open>
  Claim C1, for a capacity of at least one. After any sequence of enqueues into an empty
  queue the length is the smaller of the number of calls and \<open>maxQueueSize\<close> (so it never
  exceeds the capacity and equals it once more calls were made), the queue holds exactly
  the entries of the last \<open>maxQueueSize\<close> calls in call order, and an enqueue into a queue
  at or over capacity drops index 0 only and appends.
\<close>

theorem enqueue_bounded_fifo:
  assumes "1 \<le> maxQueueSize cfg" and "getQueue gs = []"
  shows "length (getQueue (enqueueAll cfg gs calls)) = min (length calls) (maxQueueSize cfg)
       \<and> getQueue (enqueueAll cfg gs calls) = map queuedOf (drop (length calls - maxQueueSize cfg) calls)
       \<and> (maxQueueSize cfg \<le> length (getQueue gs') \<longrightarrow>
            getQueue (enqueue cfg gs' ev err r) = drop 1 (getQueue gs') @ [newQueuedEvent ev err r])"
proof -
  have q: "getQueue (enqueueAll cfg gs calls) = map queuedOf (drop (length calls - maxQueueSize cfg) calls)"
    using getQueue_enqueueAll [of cfg gs calls] assms by (simp add: drop_map)
  have "length (getQueue (enqueueAll cfg gs calls)) = min (length calls) (maxQueueSize cfg)"
    unfolding q by (simp add: min_def)
  then show ?thesis using q by (simp add: getQueue_enqueue)
qed

theorem enqueue_bounded_fifo_witness:
  "1 \<le> maxQueueSize smallConfig \<and> getQueue emptyState = []
   \<and> length (getQueue (enqueueAll smallConfig emptyState fourCalls)) = 3
   \<and> getQueue (enqueueAll smallConfig emptyState fourCalls) = map queuedOf (tl fourCalls)
   \<and> maxQueueSize smallConfig \<le> length (getQueue (storeOf [exhaustedEvent, failedAtZero, freshEvent]))
   \<and> getQueue (enqueue smallConfig (storeOf [exhaustedEvent, failedAtZero, freshEvent])
                 (taskEvent ''test-3'') None (readsAt 103 ''ddddddd'')) =
       [failedAtZero, freshEvent, newQueuedEvent (taskEvent ''test-3'') None (readsAt 103 ''ddddddd'')]"
  using enqueue_bounded_fifo [of smallConfig emptyState fourCalls
          "storeOf [exhaustedEvent, failedAtZero, freshEvent]"
          "taskEvent ''test-3''" None "readsAt 103 ''ddddddd''"]
  by (simp add: smallConfig_def getQueue_emptyState getQueue_storeOf fourCalls_def)

text \<open>With a capacity of zero the claim as written fails: the first enqueue finds
  \<open>0 \<ge> 0\<close>, shifts the empty array, appends, and leaves one entry in the queue.\<close>

theorem enqueue_bound_counterexample:
  "\<not> length (getQueue (enqueue zeroCapacity emptyState (taskEvent ''test-0'') None (readsAt 100 ''aaaaaaa'')))
       \<le> maxQueueSize zeroCapacity"
  by (simp add: getQueue_enqueue zeroCapacity_def getQueue_emptyState)

subsection \<open>Retry eligibility\<close>

text \<open>What \<^verbatim>\<open>getEventsForRetry\<close> computes: the stored entries, in stored order, below the
  retry ceiling whose last-attempt stamp is absent, or zero, or old enough.\<close>

lemma getEventsForRetry_filter:
  "getEventsForRetry cfg gs now =
     filter (\<lambda>item. retryCount item < maxRetries cfg \<and>
                (lastRetryTimestamp item = None \<or> lastRetryTimestamp item = Some 0 \<or>
                 (\<exists>t. lastRetryTimestamp item = Some t \<and> t + 2 ^ retryCount item * 1000 \<le> now)))
            (getQueue gs)"
  unfolding getEventsForRetry_def
  by (rule filter_cong) (auto simp: readyForRetry_def Let_def split: option.splits)

lemma getEventsForRetry_below_ceiling:
  "item \<in> set (getEventsForRetry cfg gs now) \<Longrightarrow> retryCount item < maxRetries cfg"
  by (simp add: getEventsForRetry_filter)

text \<open>
  Claim C2 at the input of the specification's scenario B: one entry that failed once at
  time \<open>0\<close>, asked about at \<open>1000\<close> ms. Its backoff window of \<open>2000\<close> ms is still open,
  yet the entry is returned, because the stamp \<open>0\<close> is falsy and is read as "no attempt
  yet".
\<close>

theorem getEventsForRetry_zero_stamp:
  "retryCount failedAtZero = 1 \<and> lastRetryTimestamp failedAtZero = Some 0
   \<and> (1000 :: int) < 0 + 2 ^ retryCount failedAtZero * 1000
   \<and> getEventsForRetry DEFAULT_CONFIG (storeOf [failedAtZero]) 1000 = [failedAtZero]"
  by (simp add: getEventsForRetry_def readyForRetry_def getQueue_storeOf DEFAULT_CONFIG_def
        failedAtZero_def)

subsection \<open>Pruning\<close>

lemma filter_length_eq_iff: "length (filter P xs) = length xs \<longleftrightarrow> filter P xs = xs"
  by (metis filter_id_conv length_filter_less not_less_iff_gr_or_eq)

lemma removed_count:
  "length xs - length (filter P xs) = length (filter (\<lambda>x. \<not> P x) xs)"
  using sum_length_filter_compl [of P xs] by simp

text \<open>
  Claim C3. \<^verbatim>\<open>pruneFailedEvents\<close> leaves the entries below the retry ceiling in their
  stored order, returns the number of entries at or over the ceiling, and touches the
  store (two updates: queue, then metadata) exactly when that number is not zero;
  otherwise the store is what it was.
\<close>

theorem pruneFailedEvents_exact:
  "getQueue (fst (pruneFailedEvents cfg gs now)) =
     filter (\<lambda>item. retryCount item < maxRetries cfg) (getQueue gs)
   \<and> snd (pruneFailedEvents cfg gs now) =
       length (filter (\<lambda>item. maxRetries cfg \<le> retryCount item) (getQueue gs))
   \<and> (if snd (pruneFailedEvents cfg gs now) = 0
      then fst (pruneFailedEvents cfg gs now) = gs
      else updates (fst (pruneFailedEvents cfg gs now)) = updates gs @ [QUEUE_KEY, QUEUE_METADATA_KEY])"
proof -
  let ?keep = "\<lambda>item. retryCount item < maxRetries cfg"
  let ?q = "getQueue gs"
  have cnt: "length ?q - length (filter ?keep ?q) = length (filter (\<lambda>item. maxRetries cfg \<le> retryCount item) ?q)"
    by (simp add: removed_count not_less)
  have same: "length (filter ?keep ?q) = length ?q \<Longrightarrow> filter ?keep ?q = ?q"
    by (simp add: filter_length_eq_iff)
  have le: "length (filter ?keep ?q) \<le> length ?q" by simp
  show ?thesis
  proof (cases "length (filter ?keep ?q) = length ?q")
    case True
    then show ?thesis using same cnt by (simp add: pruneFailedEvents_def Let_def)
  next
    case False
    then have lt: "length (filter ?keep ?q) < length ?q" using le by linarith
    with cnt have "0 < length (filter (\<lambda>item. maxRetries cfg \<le> retryCount item) ?q)" by linarith
    then have "filter (\<lambda>item. maxRetries cfg \<le> retryCount item) ?q \<noteq> []" by simp
    then show ?thesis using cnt False
      by (simp add: pruneFailedEvents_def Let_def updates_save_meta)
  qed
qed

theorem pruneFailedEvents_exact_witness:
  "getQueue (fst (pruneFailedEvents DEFAULT_CONFIG (storeOf [exhaustedEvent, failedAtZero, freshEvent]) 50000)) =
     [failedAtZero, freshEvent]
   \<and> snd (pruneFailedEvents DEFAULT_CONFIG (storeOf [exhaustedEvent, failedAtZero, freshEvent]) 50000) = 1
   \<and> updates (fst (pruneFailedEvents DEFAULT_CONFIG (storeOf [exhaustedEvent, failedAtZero, freshEvent]) 50000)) =
       [QUEUE_KEY, QUEUE_METADATA_KEY]
   \<and> snd (pruneFailedEvents DEFAULT_CONFIG (storeOf [freshEvent]) 50000) = 0
   \<and> fst (pruneFailedEvents DEFAULT_CONFIG (storeOf [freshEvent]) 50000) = storeOf [freshEvent]"
proof -
  let ?gs = "storeOf [exhaustedEvent, failedAtZero, freshEvent]"
  let ?p = "pruneFailedEvents DEFAULT_CONFIG ?gs 50000"
  let ?p' = "pruneFailedEvents DEFAULT_CONFIG (storeOf [freshEvent]) 50000"
  have kept: "filter (\<lambda>item. retryCount item < maxRetries DEFAULT_CONFIG) (getQueue ?gs) =
                [failedAtZero, freshEvent]"
    by (simp add: getQueue_storeOf DEFAULT_CONFIG_def exhaustedEvent_def failedAtZero_def freshEvent_def)
  have gone: "length (filter (\<lambda>item. maxRetries DEFAULT_CONFIG \<le> retryCount item) (getQueue ?gs)) = 1"
    by (simp add: getQueue_storeOf DEFAULT_CONFIG_def exhaustedEvent_def failedAtZero_def freshEvent_def)
  have none: "length (filter (\<lambda>item. maxRetries DEFAULT_CONFIG \<le> retryCount item)
                        (getQueue (storeOf [freshEvent]))) = 0"
    by (simp add: getQueue_storeOf DEFAULT_CONFIG_def freshEvent_def)
  note at_gs = pruneFailedEvents_exact [of DEFAULT_CONFIG ?gs 50000]
  note at_fresh = pruneFailedEvents_exact [of DEFAULT_CONFIG "storeOf [freshEvent]" 50000]
  have 1: "getQueue (fst ?p) = [failedAtZero, freshEvent]"
    using at_gs kept by argo
  have 2: "snd ?p = 1"
    using at_gs gone by argo
  have 3: "updates (fst ?p) = [QUEUE_KEY, QUEUE_METADATA_KEY]"
    using at_gs 2 by (simp add: updates_storeOf)
  have 4: "snd ?p' = 0"
    using at_fresh none by argo
  have 5: "fst ?p' = storeOf [freshEvent]"
    using at_fresh 4 by simp
  from 1 2 3 4 5 show ?thesis by blast
qed

subsection \<open>Updating an entry after an attempt\<close>

lemma findIndex_None_iff: "findIndex P xs = None \<longleftrightarrow> (\<forall>x\<in>set xs. \<not> P x)"
  by (induction xs) auto

lemma findIndex_Some:
  "findIndex P xs = Some k \<Longrightarrow> k < length xs \<and> P (xs ! k) \<and> (\<forall>j<k. \<not> P (xs ! j))"
proof (induction xs arbitrary: k)
  case Nil
  then show ?case by simp
next
  case (Cons x xs)
  show ?case
  proof (cases "P x")
    case True
    with Cons.prems show ?thesis by simp
  next
    case False
    with Cons.prems obtain k' where k': "findIndex P xs = Some k'" "k = Suc k'"
      by auto
    from Cons.IH [OF k'(1)] False k'(2) show ?thesis
      by (auto simp: less_Suc_eq_0_disj)
  qed
qed

lemma findIndex_present:
  "ident \<in> id_q ` set q \<Longrightarrow> \<exists>k. findIndex (\<lambda>item. id_q item = ident) q = Some k"
  using findIndex_None_iff [of "\<lambda>item. id_q item = ident" q] by fastforce

text \<open>Where exactly one element satisfies \<open>P\<close>, splicing at the found index removes all
  elements satisfying \<open>P\<close>.\<close>

lemma splice1_unique:
  "findIndex P xs = Some k \<Longrightarrow> length (filter P xs) = 1 \<Longrightarrow> splice1 xs k = filter (\<lambda>x. \<not> P x) xs"
proof (induction xs arbitrary: k)
  case Nil
  then show ?case by simp
next
  case (Cons x xs)
  show ?case
  proof (cases "P x")
    case True
    with Cons.prems have "filter P xs = []" "k = 0" by auto
    then have "filter (\<lambda>x. \<not> P x) xs = xs"
      by (simp add: filter_empty_conv filter_id_conv)
    with True \<open>k = 0\<close> show ?thesis by (simp add: splice1_def)
  next
    case False
    with Cons.prems obtain k' where k': "findIndex P xs = Some k'" "k = Suc k'"
      by auto
    from Cons.prems False have "length (filter P xs) = 1" by simp
    from Cons.IH [OF k'(1) this] False k'(2) show ?thesis
      by (simp add: splice1_def)
  qed
qed

lemma updateEventAfterRetry_absent:
  assumes "ident \<notin> id_q ` set (getQueue gs)"
  shows "updateEventAfterRetry gs ident success err t1 t2 = gs"
proof -
  from assms have "findIndex (\<lambda>item. id_q item = ident) (getQueue gs) = None"
    by (auto simp: findIndex_None_iff)
  then show ?thesis by (simp add: updateEventAfterRetry_def)
qed

lemma getQueue_update_success:
  "findIndex (\<lambda>item. id_q item = ident) (getQueue gs) = Some k \<Longrightarrow>
   getQueue (updateEventAfterRetry gs ident True err t1 t2) = splice1 (getQueue gs) k"
  by (simp add: updateEventAfterRetry_def Let_def)

lemma getQueue_update_failure:
  "findIndex (\<lambda>item. id_q item = ident) (getQueue gs) = Some k \<Longrightarrow>
   getQueue (updateEventAfterRetry gs ident False err t1 t2) =
     (getQueue gs)[k := recordFailure (getQueue gs ! k) t1 err]"
  by (simp add: updateEventAfterRetry_def Let_def)

text \<open>
  Claim C4. A call with an identifier that no entry carries returns the store as it was,
  whatever the success flag. A success-update for an identifier in the queue removes the
  entry at one position and keeps the others in order. Where one entry carries the
  identifier, what remains is every other entry, and a second success-update with that
  identifier returns the store as the first left it.
\<close>

theorem updateEventAfterRetry_success_removes_once:
  "(ident \<notin> id_q ` set (getQueue gs) \<longrightarrow>
      updateEventAfterRetry gs ident success err t1 t2 = gs)
   \<and> (ident \<in> id_q ` set (getQueue gs) \<longrightarrow>
      (\<exists>k<length (getQueue gs). id_q (getQueue gs ! k) = ident \<and>
         getQueue (updateEventAfterRetry gs ident True err t1 t2) =
           take k (getQueue gs) @ drop (Suc k) (getQueue gs)))
   \<and> (length (filter (\<lambda>item. id_q item = ident) (getQueue gs)) = 1 \<longrightarrow>
      getQueue (updateEventAfterRetry gs ident True err t1 t2) =
        filter (\<lambda>item. id_q item \<noteq> ident) (getQueue gs)
      \<and> updateEventAfterRetry (updateEventAfterRetry gs ident True err t1 t2) ident True err' t3 t4 =
        updateEventAfterRetry gs ident True err t1 t2)"
proof (intro conjI impI)
  assume "ident \<notin> id_q ` set (getQueue gs)"
  then show "updateEventAfterRetry gs ident success err t1 t2 = gs"
    by (rule updateEventAfterRetry_absent)
next
  assume "ident \<in> id_q ` set (getQueue gs)"
  then obtain k where k: "findIndex (\<lambda>item. id_q item = ident) (getQueue gs) = Some k"
    using findIndex_present by blast
  from findIndex_Some [OF k] getQueue_update_success [OF k]
  show "\<exists>k<length (getQueue gs). id_q (getQueue gs ! k) = ident \<and>
         getQueue (updateEventAfterRetry gs ident True err t1 t2) =
           take k (getQueue gs) @ drop (Suc k) (getQueue gs)"
    by (auto simp: splice1_def)
next
  assume one: "length (filter (\<lambda>item. id_q item = ident) (getQueue gs)) = 1"
  then have "filter (\<lambda>item. id_q item = ident) (getQueue gs) \<noteq> []" by auto
  then have "ident \<in> id_q ` set (getQueue gs)" by (auto simp: filter_empty_conv)
  then obtain k where k: "findIndex (\<lambda>item. id_q item = ident) (getQueue gs) = Some k"
    using findIndex_present by blast
  show q1: "getQueue (updateEventAfterRetry gs ident True err t1 t2) =
        filter (\<lambda>item. id_q item \<noteq> ident) (getQueue gs)"
    using getQueue_update_success [OF k] splice1_unique [OF k one] by simp
  have "ident \<notin> id_q ` set (getQueue (updateEventAfterRetry gs ident True err t1 t2))"
    unfolding q1 by auto
  then show "updateEventAfterRetry (updateEventAfterRetry gs ident True err t1 t2) ident True err' t3 t4 =
        updateEventAfterRetry gs ident True err t1 t2"
    by (rule updateEventAfterRetry_absent)
qed

theorem updateEventAfterRetry_success_removes_once_witness:
  "''non-existent'' \<notin> id_q ` set (getQueue (storeOf [exhaustedEvent, failedAtZero, freshEvent]))
   \<and> updateEventAfterRetry (storeOf [exhaustedEvent, failedAtZero, freshEvent]) ''non-existent'' True None 7 8 =
       storeOf [exhaustedEvent, failedAtZero, freshEvent]
   \<and> length (filter (\<lambda>item. id_q item = ''0-bbbbbbb'') (getQueue (storeOf [exhaustedEvent, failedAtZero, freshEvent]))) = 1
   \<and> getQueue (updateEventAfterRetry (storeOf [exhaustedEvent, failedAtZero, freshEvent]) ''0-bbbbbbb'' True None 7 8) =
       [exhaustedEvent, freshEvent]
   \<and> updateEventAfterRetry
        (updateEventAfterRetry (storeOf [exhaustedEvent, failedAtZero, freshEvent]) ''0-bbbbbbb'' True None 7 8)
        ''0-bbbbbbb'' True None 9 10 =
       updateEventAfterRetry (storeOf [exhaustedEvent, failedAtZero, freshEvent]) ''0-bbbbbbb'' True None 7 8"
  using updateEventAfterRetry_success_removes_once
          [of "''non-existent''" "storeOf [exhaustedEvent, failedAtZero, freshEvent]" True None 7 8 None 9 10]
        updateEventAfterRetry_success_removes_once
          [of "''0-bbbbbbb''" "storeOf [exhaustedEvent, failedAtZero, freshEvent]" True None 7 8 None 9 10]
  by (simp add: getQueue_storeOf exhaustedEvent_def failedAtZero_def freshEvent_def)

text \<open>
  Claim C5. If some entry carries the identifier, a failure-update rewrites the first
  such entry and nothing else: its retry count goes up by one, its last-attempt stamp
  becomes the clock reading, its error becomes the argument (\<open>None\<close> clears it), and its
  identifier, payload and enqueue stamp stay; every other position keeps its entry.
\<close>

theorem updateEventAfterRetry_failure_frame:
  assumes "ident \<in> id_q ` set (getQueue gs)"
  shows "\<exists>k<length (getQueue gs).
           id_q (getQueue gs ! k) = ident \<and> (\<forall>j<k. id_q (getQueue gs ! j) \<noteq> ident) \<and>
           getQueue (updateEventAfterRetry gs ident False err now t2) =
             (getQueue gs)[k := \<lparr>id_q = id_q (getQueue gs ! k), event = event (getQueue gs ! k),
                                 timestamp = timestamp (getQueue gs ! k),
                                 retryCount = retryCount (getQueue gs ! k) + 1,
                                 lastRetryTimestamp = Some now, error = err\<rparr>]"
proof -
  from assms obtain k where k: "findIndex (\<lambda>item. id_q item = ident) (getQueue gs) = Some k"
    using findIndex_present by blast
  have "recordFailure (getQueue gs ! k) now err =
          \<lparr>id_q = id_q (getQueue gs ! k), event = event (getQueue gs ! k),
           timestamp = timestamp (getQueue gs ! k),
           retryCount = retryCount (getQueue gs ! k) + 1,
           lastRetryTimestamp = Some now, error = err\<rparr>"
    by (simp add: recordFailure_def)
  with findIndex_Some [OF k] getQueue_update_failure [OF k, of err now t2]
  show ?thesis by auto
qed

theorem updateEventAfterRetry_failure_frame_witness:
  "''0-bbbbbbb'' \<in> id_q ` set (getQueue (storeOf [exhaustedEvent, failedAtZero, freshEvent]))
   \<and> getQueue (updateEventAfterRetry (storeOf [exhaustedEvent, failedAtZero, freshEvent])
                 ''0-bbbbbbb'' False None 7000 7001) =
       [exhaustedEvent,
        \<lparr>id_q = ''0-bbbbbbb'', event = taskEvent ''test-1'', timestamp = 0, retryCount = 2,
         lastRetryTimestamp = Some 7000, error = None\<rparr>,
        freshEvent]"
proof -
  let ?gs = "storeOf [exhaustedEvent, failedAtZero, freshEvent]"
  have present: "''0-bbbbbbb'' \<in> id_q ` set (getQueue ?gs)"
    by (simp add: getQueue_storeOf failedAtZero_def)
  obtain k where k: "k < length (getQueue ?gs)" "id_q (getQueue ?gs ! k) = ''0-bbbbbbb''"
    and upd: "getQueue (updateEventAfterRetry ?gs ''0-bbbbbbb'' False None 7000 7001) =
             (getQueue ?gs)
               [k := \<lparr>id_q = id_q (getQueue ?gs ! k), event = event (getQueue ?gs ! k),
                      timestamp = timestamp (getQueue ?gs ! k),
                      retryCount = retryCount (getQueue ?gs ! k) + 1,
                      lastRetryTimestamp = Some 7000, error = None\<rparr>]"
    using updateEventAfterRetry_failure_frame [OF present, of None 7000 7001] by blast
  from k(1) have "k < 3" by (simp add: getQueue_storeOf)
  then have "k = 0 \<or> k = 1 \<or> k = 2" by linarith
  with k(2) have "k = 1"
    unfolding getQueue_storeOf by (auto simp: exhaustedEvent_def freshEvent_def)
  with upd have "getQueue (updateEventAfterRetry ?gs ''0-bbbbbbb'' False None 7000 7001) =
       [exhaustedEvent,
        \<lparr>id_q = ''0-bbbbbbb'', event = taskEvent ''test-1'', timestamp = 0, retryCount = 2,
         lastRetryTimestamp = Some 7000, error = None\<rparr>,
        freshEvent]"
    unfolding getQueue_storeOf by (simp add: failedAtZero_def)
  with present show ?thesis by simp
qed

section \<open>Properties of the retry manager\<close>

subsection \<open>Traces\<close>

lemma statusCallbacks_append [simp]: "statusCallbacks (xs @ ys) = statusCallbacks xs @ statusCallbacks ys"
  by (induction xs rule: statusCallbacks.induct) simp_all

lemma retryUpdates_append [simp]: "retryUpdates (xs @ ys) = retryUpdates xs @ retryUpdates ys"
  by (induction xs rule: retryUpdates.induct) simp_all

lemma retryUpdates_map:
  "retryUpdates (map (\<lambda>v. UpdateEventAfterRetry (out_id v) (out_success v) (out_error v)) vs) =
     map (\<lambda>v. (out_id v, out_success v, out_error v)) vs"
  by (induction vs) simp_all

lemma statusCallbacks_map:
  "statusCallbacks (map (\<lambda>v. UpdateEventAfterRetry (out_id v) (out_success v) (out_error v)) vs) = []"
  by (induction vs) simp_all

lemma extends_newObservations:
  "extendsTrace m m' \<Longrightarrow> trace m' = trace m @ newObservations m m'"
  unfolding extendsTrace_def newObservations_def
  by (metis append_take_drop_id)

lemma extendsI: "trace m' = trace m @ obs \<Longrightarrow> extendsTrace m m' \<and> newObservations m m' = obs"
  by (simp add: extendsTrace_def newObservations_def)

lemma updateConnectionStatus_simps:
  "isConnected (updateConnectionStatus cfg m v) = v"
  "trace (updateConnectionStatus cfg m v) =
     trace m @ (if onConnectionStatusChange cfg \<and> isConnected m \<noteq> v then [ConnectionStatusChange v] else [])"
  "store (updateConnectionStatus cfg m v) = store m"
  by (auto simp: updateConnectionStatus_def Let_def)

lemma callUpdate_simps:
  "isConnected (callUpdateEventAfterRetry env m i s e) = isConnected m"
  "trace (callUpdateEventAfterRetry env m i s e) = trace m @ [UpdateEventAfterRetry i s e]"
  by (simp_all add: callUpdateEventAfterRetry_def Let_def)

lemma notify_simps:
  "isConnected (notifyQueueSizeChange qcfg cfg m) = isConnected m"
  "store (notifyQueueSizeChange qcfg cfg m) = store m"
  "trace (notifyQueueSizeChange qcfg cfg m) =
     trace m @ (if onQueueSizeChange cfg
                then [QueueSizeChange (length (getQueue (store m)))
                        (queueSizeWarningThreshold qcfg \<le> length (getQueue (store m)))]
                else [])"
  by (simp_all add: notifyQueueSizeChange_def getQueueMetadata_def Let_def)

subsection \<open>One batch\<close>

text \<open>The result loop leaves the status alone, logs one queue update per fulfilled
  entry and applies it to the queue, and counts successes and failures among the
  fulfilled entries.\<close>

lemma applyResults_effect:
  "isConnected (fst (applyResults env rs (m, sc, fc))) = isConnected m
   \<and> trace (fst (applyResults env rs (m, sc, fc))) =
       trace m @ map (\<lambda>v. UpdateEventAfterRetry (out_id v) (out_success v) (out_error v)) (fulfilledValues rs)
   \<and> fst (snd (applyResults env rs (m, sc, fc))) = sc + length (filter out_success (fulfilledValues rs))
   \<and> snd (snd (applyResults env rs (m, sc, fc))) =
       fc + length (filter (\<lambda>v. \<not> out_success v) (fulfilledValues rs))"
proof (induction rs arbitrary: m sc fc)
  case Nil
  then show ?case by simp
next
  case (Cons r rs)
  show ?case
  proof (cases r)
    case (Fulfilled v)
    then show ?thesis
      using Cons.IH [of "callUpdateEventAfterRetry env m (out_id v) (out_success v) (out_error v)"
                        "if out_success v then sc + 1 else sc" "if out_success v then fc else fc + 1"]
      by (simp add: callUpdate_simps)
  next
    case (Rejected x)
    then show ?thesis using Cons.IH [of m sc fc] by simp
  qed
qed

lemma store_applyResults:
  "store (fst (applyResults env rs (m, sc, fc))) =
     applyUpdates env (clockReads m) (store m) (fulfilledValues rs)"
proof (induction rs arbitrary: m sc fc)
  case Nil
  then show ?case by simp
next
  case (Cons r rs)
  show ?case
  proof (cases r)
    case (Fulfilled v)
    then show ?thesis
      using Cons.IH [of "callUpdateEventAfterRetry env m (out_id v) (out_success v) (out_error v)"
                        "if out_success v then sc + 1 else sc" "if out_success v then fc else fc + 1"]
      by (simp add: callUpdateEventAfterRetry_def Let_def)
  next
    case (Rejected x)
    then show ?thesis using Cons.IH [of m sc fc] by simp
  qed
qed

text \<open>What the task of one event settles to, by what its send did.\<close>

lemma dispatchTask_resolved:
  "sendEvent env k (event qe) = None \<Longrightarrow>
   dispatchTask env k qe = Fulfilled \<lparr>out_id = id_q qe, out_success = True, out_error = None\<rparr>"
  by (simp add: dispatchTask_def)

lemma dispatchTask_rejected_renderable:
  "sendEvent env k (event qe) = Some v \<Longrightarrow> renderable v \<Longrightarrow>
   \<exists>msg. errorMessage v = Inr msg \<and>
     dispatchTask env k qe = Fulfilled \<lparr>out_id = id_q qe, out_success = False, out_error = Some msg\<rparr>"
  by (auto simp: dispatchTask_def renderable_def split: sum.splits)

lemma dispatchTask_rejected_unrenderable:
  "sendEvent env k (event qe) = Some v \<Longrightarrow> \<not> renderable v \<Longrightarrow>
   \<exists>t. errorMessage v = Inl t \<and> dispatchTask env k qe = Rejected t"
  by (auto simp: dispatchTask_def renderable_def split: sum.splits)

lemma dispatchTask_outcome_cases:
  obtains (resolved) "sendEvent env k (event qe) = None"
      "dispatchTask env k qe = Fulfilled \<lparr>out_id = id_q qe, out_success = True, out_error = None\<rparr>"
  | (failed) v msg where "sendEvent env k (event qe) = Some v" "renderable v"
      "dispatchTask env k qe = Fulfilled \<lparr>out_id = id_q qe, out_success = False, out_error = Some msg\<rparr>"
  | (skipped) v t where "sendEvent env k (event qe) = Some v" "\<not> renderable v"
      "dispatchTask env k qe = Rejected t"
proof (cases "sendEvent env k (event qe)")
  case None
  then show ?thesis using dispatchTask_resolved resolved by blast
next
  case (Some v)
  show ?thesis
  proof (cases "renderable v")
    case True
    with Some dispatchTask_rejected_renderable [of env k qe v] failed show ?thesis by blast
  next
    case False
    with Some dispatchTask_rejected_unrenderable [of env k qe v] skipped show ?thesis by blast
  qed
qed

lemma length_batchOutcomes_le: "length (batchOutcomes env k batch) \<le> length batch"
proof (induction batch arbitrary: k)
  case Nil
  then show ?case by (simp add: batchOutcomes_def)
next
  case (Cons qe batch)
  from Cons.IH [of "Suc k"] show ?case
    by (cases "dispatchTask env k qe") (simp_all add: batchOutcomes_def)
qed

lemma failures_le:
  "length (filter (\<lambda>v. \<not> out_success v) (batchOutcomes env k batch)) \<le> length batch"
  using length_filter_le [of "\<lambda>v. \<not> out_success v" "batchOutcomes env k batch"]
        length_batchOutcomes_le [of env k batch]
  by linarith

lemma some_success_iff:
  "0 < length (filter out_success (batchOutcomes env k batch)) \<longleftrightarrow>
     (\<exists>j<length batch. sendEvent env (k + j) (event (batch ! j)) = None)"
proof (induction batch arbitrary: k)
  case Nil
  then show ?case by (simp add: batchOutcomes_def)
next
  case (Cons qe batch)
  have split: "(\<exists>j<length (qe # batch). sendEvent env (k + j) (event ((qe # batch) ! j)) = None) \<longleftrightarrow>
                 sendEvent env k (event qe) = None \<or>
                 (\<exists>j<length batch. sendEvent env (Suc k + j) (event (batch ! j)) = None)"
    by (simp add: Ex_less_Suc2)
  have rest: "0 < length (filter out_success (batchOutcomes env (Suc k) batch)) \<longleftrightarrow>
                (\<exists>j<length batch. sendEvent env (Suc k + j) (event (batch ! j)) = None)"
    by (rule Cons.IH)
  show ?case
  proof (cases rule: dispatchTask_outcome_cases [of env k qe])
    case resolved
    then show ?thesis unfolding split by (simp add: batchOutcomes_def)
  next
    case (failed v msg)
    then show ?thesis unfolding split using rest by (simp add: batchOutcomes_def)
  next
    case (skipped v t)
    then show ?thesis unfolding split using rest by (simp add: batchOutcomes_def)
  qed
qed

text \<open>The failure counter reaches the batch length exactly when every send of the batch
  rejected with a renderable value.\<close>

lemma all_failed_iff:
  "length (filter (\<lambda>v. \<not> out_success v) (batchOutcomes env k batch)) = length batch \<longleftrightarrow>
     (\<forall>j<length batch. \<exists>v. sendEvent env (k + j) (event (batch ! j)) = Some v \<and> renderable v)"
proof (induction batch arbitrary: k)
  case Nil
  then show ?case by (simp add: batchOutcomes_def)
next
  case (Cons qe batch)
  let ?P = "\<lambda>k j b. \<exists>v. sendEvent env (k + j) (event (b ! j)) = Some v \<and> renderable v"
  have split: "(\<forall>j<length (qe # batch). ?P k j (qe # batch)) \<longleftrightarrow>
                 (\<exists>v. sendEvent env k (event qe) = Some v \<and> renderable v) \<and>
                 (\<forall>j<length batch. ?P (Suc k) j batch)"
    by (simp add: All_less_Suc2)
  have rest: "length (filter (\<lambda>v. \<not> out_success v) (batchOutcomes env (Suc k) batch)) = length batch \<longleftrightarrow>
                (\<forall>j<length batch. ?P (Suc k) j batch)"
    by (rule Cons.IH)
  have bound: "length (filter (\<lambda>v. \<not> out_success v) (batchOutcomes env (Suc k) batch)) \<le> length batch"
    by (rule failures_le)
  show ?case
  proof (cases rule: dispatchTask_outcome_cases [of env k qe])
    case resolved
    then show ?thesis unfolding split using bound by (simp add: batchOutcomes_def)
  next
    case (failed v msg)
    then show ?thesis unfolding split using rest by (simp add: batchOutcomes_def)
  next
    case (skipped v t)
    then show ?thesis unfolding split using bound by (simp add: batchOutcomes_def)
  qed
qed

lemma processBatch_unfold:
  "processBatch env cfg m batch =
     (let m2 = fst (applyResults env (dispatchAll env (sendCalls m) batch)
                      (m\<lparr>sendCalls := sendCalls m + length batch\<rparr>, 0, 0));
          vs = batchOutcomes env (sendCalls m) batch
      in if 0 < length (filter out_success vs) \<and> \<not> isConnected m then updateConnectionStatus cfg m2 True
         else if length (filter (\<lambda>v. \<not> out_success v) vs) = length batch \<and> isConnected m
              then updateConnectionStatus cfg m2 False
         else m2)"
proof -
  let ?m1 = "m\<lparr>sendCalls := sendCalls m + length batch\<rparr>"
  let ?res = "applyResults env (dispatchAll env (sendCalls m) batch) (?m1, 0, 0)"
  note eff = applyResults_effect [of env "dispatchAll env (sendCalls m) batch" ?m1 0 0]
  obtain m2 sc fc where res: "?res = (m2, sc, fc)" by (cases ?res) auto
  from eff res have "isConnected m2 = isConnected m"
    and "sc = length (filter out_success (batchOutcomes env (sendCalls m) batch))"
    and "fc = length (filter (\<lambda>v. \<not> out_success v) (batchOutcomes env (sendCalls m) batch))"
    by (simp_all add: batchOutcomes_def)
  then show ?thesis
    by (simp add: processBatch_def Let_def res)
qed

lemma trace_after_results:
  "trace (fst (applyResults env (dispatchAll env (sendCalls m) batch)
                 (m\<lparr>sendCalls := sendCalls m + length batch\<rparr>, 0, 0))) =
     trace m @ map (\<lambda>v. UpdateEventAfterRetry (out_id v) (out_success v) (out_error v))
                   (batchOutcomes env (sendCalls m) batch)"
  using applyResults_effect [of env "dispatchAll env (sendCalls m) batch"
          "m\<lparr>sendCalls := sendCalls m + length batch\<rparr>" 0 0]
  by (simp add: batchOutcomes_def)

lemma isConnected_after_results:
  "isConnected (fst (applyResults env (dispatchAll env (sendCalls m) batch)
                 (m\<lparr>sendCalls := sendCalls m + length batch\<rparr>, 0, 0))) = isConnected m"
  using applyResults_effect [of env "dispatchAll env (sendCalls m) batch"
          "m\<lparr>sendCalls := sendCalls m + length batch\<rparr>" 0 0]
  by simp

lemma trace_processBatch:
  "trace (processBatch env cfg m batch) =
     trace m @ map (\<lambda>v. UpdateEventAfterRetry (out_id v) (out_success v) (out_error v))
                   (batchOutcomes env (sendCalls m) batch)
             @ (if onConnectionStatusChange cfg \<and> isConnected (processBatch env cfg m batch) \<noteq> isConnected m
                then [ConnectionStatusChange (isConnected (processBatch env cfg m batch))] else [])"
  unfolding processBatch_unfold Let_def
  by (auto simp: updateConnectionStatus_simps isConnected_after_results trace_after_results)

lemma store_processBatch:
  "store (processBatch env cfg m batch) =
     applyUpdates env (clockReads m) (store m) (batchOutcomes env (sendCalls m) batch)"
  unfolding processBatch_unfold Let_def
  using store_applyResults [of env "dispatchAll env (sendCalls m) batch"
          "m\<lparr>sendCalls := sendCalls m + length batch\<rparr>" 0 0]
  by (simp add: updateConnectionStatus_simps batchOutcomes_def)

text \<open>The calls of \<^verbatim>\<open>updateEventAfterRetry\<close> a batch makes are the outcomes of its
  fulfilled tasks, in batch order.\<close>

lemma retryUpdates_processBatch:
  "retryUpdates (newObservations m (processBatch env cfg m batch)) =
     map (\<lambda>v. (out_id v, out_success v, out_error v)) (batchOutcomes env (sendCalls m) batch)"
  by (simp add: newObservations_def trace_processBatch retryUpdates_map)

text \<open>Where every rejection of the batch is renderable, no task rejects and every event
  of the batch has its outcome, in batch order.\<close>

lemma renderable_batch_all_fulfilled:
  assumes "\<forall>j<length batch. \<forall>v. sendEvent env (k + j) (event (batch ! j)) = Some v \<longrightarrow> renderable v"
  shows "list_all isFulfilled (dispatchAll env k batch)
       \<and> map out_id (batchOutcomes env k batch) = map id_q batch
       \<and> map out_success (batchOutcomes env k batch) =
           map (\<lambda>j. sendEvent env (k + j) (event (batch ! j)) = None) [0..<length batch]"
  using assms
proof (induction batch arbitrary: k)
  case Nil
  then show ?case by (simp add: batchOutcomes_def)
next
  case (Cons qe batch)
  from Cons.prems have here: "\<forall>v. sendEvent env k (event qe) = Some v \<longrightarrow> renderable v"
    and later: "\<forall>j<length batch. \<forall>v. sendEvent env (Suc k + j) (event (batch ! j)) = Some v \<longrightarrow> renderable v"
    by (simp_all add: All_less_Suc2)
  have shift: "map (\<lambda>j. sendEvent env (k + j) (event ((qe # batch) ! j)) = None) [0..<length (qe # batch)] =
                 (sendEvent env k (event qe) = None)
                 # map (\<lambda>j. sendEvent env (Suc k + j) (event (batch ! j)) = None) [0..<length batch]"
    by (simp add: upt_conv_Cons map_Suc_upt [symmetric] del: upt_Suc)
  note ih = Cons.IH [OF later]
  show ?case
  proof (cases rule: dispatchTask_outcome_cases [of env k qe])
    case resolved
    then show ?thesis unfolding shift using ih by (simp add: batchOutcomes_def)
  next
    case (failed v msg)
    then show ?thesis unfolding shift using ih by (simp add: batchOutcomes_def)
  next
    case (skipped v t)
    with here show ?thesis by simp
  qed
qed

text \<open>The status after a batch, in terms of what the sends did.\<close>

lemma isConnected_processBatch:
  "isConnected (processBatch env cfg m batch) =
     (if (\<exists>j<length batch. sendEvent env (sendCalls m + j) (event (batch ! j)) = None) \<and> \<not> isConnected m
      then True
      else if (\<forall>j<length batch. \<exists>v. sendEvent env (sendCalls m + j) (event (batch ! j)) = Some v
                                         \<and> renderable v) \<and> isConnected m
      then False
      else isConnected m)"
  unfolding processBatch_unfold Let_def some_success_iff all_failed_iff
  by (auto simp: updateConnectionStatus_simps isConnected_after_results)

text \<open>
  Claim C6 at a connected manager and a batch of one event whose send rejects with a
  value that \<^verbatim>\<open>String(...)\<close> cannot convert. The \<^verbatim>\<open>catch\<close> block throws, the task rejects,
  the result loop skips it and the failure counter stays at \<open>0\<close>, short of the batch
  length \<open>1\<close>: every send of the batch failed, and the manager is still connected and
  has called no status callback.
\<close>

theorem processBatch_all_failed_stays_connected:
  "sendEvent unrenderableEnv (sendCalls (newManager (storeOf [freshEvent])) + 0) (event ([freshEvent] ! 0)) \<noteq> None
   \<and> isConnected (newManager (storeOf [freshEvent]))
   \<and> isConnected (processBatch unrenderableEnv notifyingConfig (newManager (storeOf [freshEvent])) [freshEvent])
   \<and> statusCallbacks (trace (processBatch unrenderableEnv notifyingConfig (newManager (storeOf [freshEvent]))
                               [freshEvent])) = []"
  by (simp add: processBatch_def dispatchTask_def unrenderableEnv_def newManager_def Let_def)

text \<open>
  Claim C9 at the same input. The send of the batch's one event rejects, computing the
  message throws inside the \<^verbatim>\<open>catch\<close> block, and the settled entry of that task is a
  rejected one. The result loop makes no call of \<^verbatim>\<open>updateEventAfterRetry\<close> for the event,
  and the stored queue is what it was: the failed attempt is not recorded.
\<close>

theorem processBatch_rejected_task_not_fed_back:
  "dispatchAll unrenderableEnv (sendCalls (newManager (storeOf [freshEvent]))) [freshEvent] =
     [Rejected (ErrorObject ''Cannot convert object to primitive value'')]
   \<and> retryUpdates (newObservations (newManager (storeOf [freshEvent]))
        (processBatch unrenderableEnv notifyingConfig (newManager (storeOf [freshEvent])) [freshEvent])) = []
   \<and> store (processBatch unrenderableEnv notifyingConfig (newManager (storeOf [freshEvent])) [freshEvent]) =
       storeOf [freshEvent]"
  by (simp add: processBatch_def dispatchTask_def unrenderableEnv_def newManager_def Let_def
        newObservations_def)

subsection \<open>Queueing a failed event\<close>

lemma truthy_str_iff: "truthy_str err \<longleftrightarrow> err \<noteq> None \<and> err \<noteq> Some []"
  by (cases err) (simp_all add: truthy_str_def)

lemma queueFailedEvent_effect:
  "store (queueFailedEvent env qcfg cfg m ev err) =
     enqueue qcfg (store m) ev err
       \<lparr>idNow = clock env (clockReads m), rnd = random env (randomReads m),
        tsNow = clock env (clockReads m + 1), metaNow = clock env (clockReads m + 2)\<rparr>
   \<and> trace (queueFailedEvent env qcfg cfg m ev err) =
       trace m
       @ (if err \<noteq> None \<and> err \<noteq> Some [] \<and> isConnected m \<and> onConnectionStatusChange cfg
          then [ConnectionStatusChange False] else [])
       @ (if onQueueSizeChange cfg
          then [QueueSizeChange (getQueueSize (store (queueFailedEvent env qcfg cfg m ev err)))
                  (queueSizeWarningThreshold qcfg \<le> getQueueSize (store (queueFailedEvent env qcfg cfg m ev err)))]
          else [])
   \<and> isConnected (queueFailedEvent env qcfg cfg m ev err) =
       (isConnected m \<and> \<not> (err \<noteq> None \<and> err \<noteq> Some []))"
proof -
  let ?r = "\<lparr>idNow = clock env (clockReads m), rnd = random env (randomReads m),
        tsNow = clock env (clockReads m + 1), metaNow = clock env (clockReads m + 2)\<rparr>"
  let ?m1 = "m\<lparr>store := enqueue qcfg (store m) ev err ?r, clockReads := clockReads m + 3,
               randomReads := Suc (randomReads m)\<rparr>"
  let ?flip = "truthy_str err \<and> isConnected m"
  let ?m2 = "if ?flip then updateConnectionStatus cfg ?m1 False else ?m1"
  have unfold: "queueFailedEvent env qcfg cfg m ev err = notifyQueueSizeChange qcfg cfg ?m2"
    by (simp add: queueFailedEvent_def Let_def)
  have st: "store ?m2 = enqueue qcfg (store m) ev err ?r"
    by (simp add: updateConnectionStatus_simps)
  have ic: "isConnected ?m2 = (isConnected m \<and> \<not> truthy_str err)"
    by (auto simp: updateConnectionStatus_simps)
  have tr: "trace ?m2 = trace m @ (if ?flip \<and> onConnectionStatusChange cfg
                                   then [ConnectionStatusChange False] else [])"
    by (simp add: updateConnectionStatus_simps)
  have A: "store (queueFailedEvent env qcfg cfg m ev err) = enqueue qcfg (store m) ev err ?r"
  proof -
    have "store (queueFailedEvent env qcfg cfg m ev err) = store ?m2"
      by (simp only: unfold notify_simps)
    also note st
    finally show ?thesis .
  qed
  have C: "isConnected (queueFailedEvent env qcfg cfg m ev err) =
       (isConnected m \<and> \<not> (err \<noteq> None \<and> err \<noteq> Some []))"
  proof -
    have "isConnected (queueFailedEvent env qcfg cfg m ev err) = isConnected ?m2"
      by (simp only: unfold notify_simps)
    also note ic
    also have "(isConnected m \<and> \<not> truthy_str err) = (isConnected m \<and> \<not> (err \<noteq> None \<and> err \<noteq> Some []))"
      by (simp only: truthy_str_iff)
    finally show ?thesis .
  qed
  have B: "trace (queueFailedEvent env qcfg cfg m ev err) =
       trace m
       @ (if err \<noteq> None \<and> err \<noteq> Some [] \<and> isConnected m \<and> onConnectionStatusChange cfg
          then [ConnectionStatusChange False] else [])
       @ (if onQueueSizeChange cfg
          then [QueueSizeChange (getQueueSize (store (queueFailedEvent env qcfg cfg m ev err)))
                  (queueSizeWarningThreshold qcfg \<le> getQueueSize (store (queueFailedEvent env qcfg cfg m ev err)))]
          else [])"
  proof -
    have "trace (queueFailedEvent env qcfg cfg m ev err) =
          trace ?m2 @ (if onQueueSizeChange cfg
                then [QueueSizeChange (length (getQueue (store ?m2)))
                        (queueSizeWarningThreshold qcfg \<le> length (getQueue (store ?m2)))]
                else [])"
      by (simp only: unfold notify_simps)
    also have "\<dots> = (trace m @ (if ?flip \<and> onConnectionStatusChange cfg
                                   then [ConnectionStatusChange False] else []))
                      @ (if onQueueSizeChange cfg
                then [QueueSizeChange (length (getQueue (enqueue qcfg (store m) ev err ?r)))
                        (queueSizeWarningThreshold qcfg \<le> length (getQueue (enqueue qcfg (store m) ev err ?r)))]
                else [])"
      by (simp only: st tr)
    finally show ?thesis
      by (simp only: A getQueueSize_def truthy_str_iff append_assoc conj_assoc)
  qed
  from A B C show ?thesis by (intro conjI)
qed

text \<open>The queue after \<^verbatim>\<open>queueFailedEvent\<close>: the old queue, without its oldest entry when it
  was at or over capacity, followed by a new entry that carries the event and the error
  argument, a fresh identifier, the clock reading as its enqueue stamp, and no attempt
  yet.\<close>

lemma getQueue_queueFailedEvent:
  "getQueue (store (queueFailedEvent env qcfg cfg m ev err)) =
     (if maxQueueSize qcfg \<le> length (getQueue (store m)) then drop 1 (getQueue (store m))
      else getQueue (store m))
     @ [\<lparr>id_q = number_to_string (clock env (clockReads m)) @ ''-'' @ random env (randomReads m),
          event = ev, timestamp = clock env (clockReads m + 1), retryCount = 0,
          lastRetryTimestamp = None, error = err\<rparr>]"
  using queueFailedEvent_effect [of env qcfg cfg m ev err]
  by (simp add: getQueue_enqueue newQueuedEvent_def generateId_def)


subsection \<open>Edge-triggered status callback\<close>

lemma edgeTriggered_updateConnectionStatus: "edgeTriggered cfg m (updateConnectionStatus cfg m v)"
  using extendsI [OF updateConnectionStatus_simps(2) [of cfg m v]]
  by (auto simp: edgeTriggered_def updateConnectionStatus_simps)

lemma edgeTriggered_processBatch: "edgeTriggered cfg m (processBatch env cfg m batch)"
  using extendsI [OF trace_processBatch [of env cfg m batch]]
  by (simp add: edgeTriggered_def statusCallbacks_map)

lemma trace_checkConnectionStatus:
  "trace (checkConnectionStatus env cfg m) =
     trace m @ (if onConnectionStatusChange cfg \<and> isConnected (checkConnectionStatus env cfg m) \<noteq> isConnected m
                then [ConnectionStatusChange (isConnected (checkConnectionStatus env cfg m))] else [])"
  by (auto simp: checkConnectionStatus_def Let_def updateConnectionStatus_simps split: option.splits)

lemma edgeTriggered_checkConnectionStatus: "edgeTriggered cfg m (checkConnectionStatus env cfg m)"
  using extendsI [OF trace_checkConnectionStatus [of env cfg m]]
  by (simp add: edgeTriggered_def)

lemma edgeTriggered_notify: "edgeTriggered cfg m (notifyQueueSizeChange qcfg cfg m)"
  using extendsI [OF notify_simps(3) [of qcfg cfg m]]
  by (simp add: edgeTriggered_def notify_simps)

lemma edgeTriggered_queueFailedEvent: "edgeTriggered cfg m (queueFailedEvent env qcfg cfg m ev err)"
proof -
  note q = queueFailedEvent_effect [of env qcfg cfg m ev err]
  from q have tr: "trace (queueFailedEvent env qcfg cfg m ev err) =
       trace m
       @ ((if err \<noteq> None \<and> err \<noteq> Some [] \<and> isConnected m \<and> onConnectionStatusChange cfg
          then [ConnectionStatusChange False] else [])
       @ (if onQueueSizeChange cfg
          then [QueueSizeChange (getQueueSize (store (queueFailedEvent env qcfg cfg m ev err)))
                  (queueSizeWarningThreshold qcfg \<le> getQueueSize (store (queueFailedEvent env qcfg cfg m ev err)))]
          else []))" by simp
  from q have ic: "isConnected (queueFailedEvent env qcfg cfg m ev err) =
       (isConnected m \<and> \<not> (err \<noteq> None \<and> err \<noteq> Some []))" by simp
  show ?thesis
    using extendsI [OF tr] unfolding edgeTriggered_def
    by (auto simp: ic)
qed

lemma alternating_append:
  "alternating s (vs @ ws) = (alternating s vs \<and> alternating (last (s # vs)) ws)"
  by (induction vs arbitrary: s) auto

lemma run_of_step: "edgeTriggered cfg m m' \<Longrightarrow> edgeTriggeredRun cfg m m'"
  by (auto simp: edgeTriggered_def edgeTriggeredRun_def)

lemma run_refl: "edgeTriggeredRun cfg m m"
  by (simp add: edgeTriggeredRun_def extendsTrace_def newObservations_def)

lemma run_trans:
  assumes "edgeTriggeredRun cfg m m'" "edgeTriggeredRun cfg m' m''"
  shows "edgeTriggeredRun cfg m m''"
proof -
  from assms have e1: "trace m' = trace m @ newObservations m m'"
    and e2: "trace m'' = trace m' @ newObservations m' m''"
    by (simp_all add: edgeTriggeredRun_def extends_newObservations)
  then have "trace m'' = trace m @ (newObservations m m' @ newObservations m' m'')" by simp
  from extendsI [OF this] assms show ?thesis
    by (auto simp: edgeTriggeredRun_def alternating_append)
qed

lemma run_transfer:
  assumes "edgeTriggeredRun cfg a b"
    and "trace a' = trace a" "isConnected a' = isConnected a"
    and "trace b' = trace b" "isConnected b' = isConnected b"
  shows "edgeTriggeredRun cfg a' b'"
  using assms unfolding edgeTriggeredRun_def extendsTrace_def newObservations_def by simp

lemma run_processBatches: "edgeTriggeredRun cfg m (processBatches env cfg m batches)"
proof (induction batches arbitrary: m)
  case Nil
  then show ?case by (simp add: run_refl)
next
  case (Cons batch batches)
  have "edgeTriggeredRun cfg m (processBatch env cfg m batch)"
    by (rule run_of_step) (rule edgeTriggered_processBatch)
  from run_trans [OF this Cons.IH] show ?case by simp
qed

subsection \<open>The processing cycle\<close>

text \<open>With a positive batch size the loop of \<^verbatim>\<open>createBatches\<close> ends.\<close>

lemma createBatches_loop_returns:
  "0 < bsize \<Longrightarrow> \<exists>bs. createBatches_loop items bsize i acc = Some bs"
proof (induction "length items - i" arbitrary: i acc rule: less_induct)
  case less
  show ?case
  proof (cases "i < length items")
    case True
    with less.prems have "length items - (i + bsize) < length items - i" by simp
    from less.hyps [OF this less.prems, of "acc @ [slice items i (i + bsize)]"] True
    show ?thesis by (subst createBatches_loop.simps) simp
  next
    case False
    then show ?thesis by (subst createBatches_loop.simps) simp
  qed
qed

lemma createBatches_returns: "0 < bsize \<Longrightarrow> \<exists>bs. createBatches items bsize = Some bs"
  by (simp add: createBatches_def createBatches_loop_returns)

lemma processQueue_busy: "isProcessing m \<Longrightarrow> processQueue env qcfg cfg m = Some m"
  by (simp add: processQueue_def)

lemma processQueue_idle:
  assumes "\<not> isProcessing m"
  shows "processQueue env qcfg cfg m =
     (let gs' = fst (pruneFailedEvents qcfg (store m) (clock env (clockReads m)));
          eventsToRetry = getEventsForRetry qcfg gs' (clock env (Suc (clockReads m)));
          m3 = m\<lparr>isProcessing := True, store := gs', clockReads := Suc (Suc (clockReads m))\<rparr>
      in if eventsToRetry = [] then Some (m3\<lparr>isProcessing := False\<rparr>)
         else (case createBatches eventsToRetry (batchSize cfg) of
                 None \<Rightarrow> None
               | Some batches \<Rightarrow>
                   Some ((notifyQueueSizeChange qcfg cfg
                           (checkConnectionStatus env cfg (processBatches env cfg m3 batches)))
                         \<lparr>isProcessing := False\<rparr>)))"
  using assms
  by (simp add: processQueue_def Let_def split_def split: option.splits)

lemma processQueue_run:
  assumes "0 < batchSize cfg"
  shows "\<exists>m'. processQueue env qcfg cfg m = Some m' \<and> edgeTriggeredRun cfg m m'"
proof (cases "isProcessing m")
  case True
  then show ?thesis by (simp add: processQueue_busy run_refl)
next
  case False
  let ?gs = "fst (pruneFailedEvents qcfg (store m) (clock env (clockReads m)))"
  let ?ev = "getEventsForRetry qcfg ?gs (clock env (Suc (clockReads m)))"
  let ?m3 = "m\<lparr>isProcessing := True, store := ?gs, clockReads := Suc (Suc (clockReads m))\<rparr>"
  note unfold = processQueue_idle [OF False, of env qcfg cfg]
  show ?thesis
  proof (cases "?ev = []")
    case True
    have "processQueue env qcfg cfg m = Some (?m3\<lparr>isProcessing := False\<rparr>)"
      unfolding unfold Let_def using True by simp
    moreover have "edgeTriggeredRun cfg m (?m3\<lparr>isProcessing := False\<rparr>)"
      by (rule run_transfer [OF run_refl [of cfg m]]) simp_all
    ultimately show ?thesis by blast
  next
    case nonempty: False
    from createBatches_returns [OF assms] obtain batches
      where bs: "createBatches ?ev (batchSize cfg) = Some batches" by blast
    let ?m4 = "processBatches env cfg ?m3 batches"
    let ?m5 = "checkConnectionStatus env cfg ?m4"
    let ?m6 = "notifyQueueSizeChange qcfg cfg ?m5"
    have pq: "processQueue env qcfg cfg m = Some (?m6\<lparr>isProcessing := False\<rparr>)"
      unfolding unfold Let_def using nonempty bs by simp
    have r34: "edgeTriggeredRun cfg ?m3 ?m4" by (rule run_processBatches)
    have r45: "edgeTriggeredRun cfg ?m4 ?m5"
      by (rule run_of_step) (rule edgeTriggered_checkConnectionStatus)
    have r56: "edgeTriggeredRun cfg ?m5 ?m6"
      by (rule run_of_step) (rule edgeTriggered_notify)
    have "edgeTriggeredRun cfg ?m3 ?m6"
      by (rule run_trans [OF run_trans [OF r34 r45] r56])
    then have "edgeTriggeredRun cfg m (?m6\<lparr>isProcessing := False\<rparr>)"
      by (rule run_transfer) simp_all
    with pq show ?thesis by blast
  qed
qed

text \<open>
  Claim C7. On each path that updates the status (\<^verbatim>\<open>updateConnectionStatus\<close> itself,
  the outcome of a batch, the connectivity probe, \<^verbatim>\<open>queueFailedEvent\<close>) the status
  callback is called once with the new status exactly when the status changed, and not
  called when it did not. Over a whole processing cycle, which returns whenever the
  batch size is positive, every value passed to the callback differs from the status
  held just before, and the status at the end is the value passed last.
\<close>

theorem connection_callback_edge_triggered:
  "edgeTriggered cfg m (updateConnectionStatus cfg m v)
   \<and> edgeTriggered cfg m (processBatch env cfg m batch)
   \<and> edgeTriggered cfg m (checkConnectionStatus env cfg m)
   \<and> edgeTriggered cfg m (queueFailedEvent env qcfg cfg m ev err)
   \<and> (0 < batchSize cfg \<longrightarrow>
        (case processQueue env qcfg cfg m of None \<Rightarrow> False | Some m' \<Rightarrow> edgeTriggeredRun cfg m m'))"
proof -
  have "0 < batchSize cfg \<longrightarrow>
        (case processQueue env qcfg cfg m of None \<Rightarrow> False | Some m' \<Rightarrow> edgeTriggeredRun cfg m m')"
    using processQueue_run [of cfg env qcfg m] by auto
  then show ?thesis
    by (simp add: edgeTriggered_updateConnectionStatus edgeTriggered_processBatch
          edgeTriggered_checkConnectionStatus edgeTriggered_queueFailedEvent)
qed

theorem connection_callback_edge_triggered_witness:
  "0 < batchSize notifyingConfig
   \<and> statusCallbacks (newObservations (newManager (storeOf [freshEvent]))
        (processBatch failingEnv notifyingConfig (newManager (storeOf [freshEvent])) [freshEvent])) = [False]
   \<and> statusCallbacks (newObservations (newManager (storeOf [freshEvent]))
        (processBatch quietEnv notifyingConfig (newManager (storeOf [freshEvent])) [freshEvent])) = []
   \<and> statusCallbacks (newObservations (newManager (storeOf [freshEvent]))
        (queueFailedEvent failingEnv DEFAULT_CONFIG notifyingConfig (newManager (storeOf [freshEvent]))
           (taskEvent ''test-3'') (Some ''Network error''))) = [False]
   \<and> (case processQueue failingEnv DEFAULT_CONFIG notifyingConfig (newManager (storeOf [freshEvent])) of
         None \<Rightarrow> False
       | Some m' \<Rightarrow> edgeTriggeredRun notifyingConfig (newManager (storeOf [freshEvent])) m')"
proof -
  let ?m = "newManager (storeOf [freshEvent])"
  have down: "isConnected (processBatch failingEnv notifyingConfig ?m [freshEvent]) = False"
    by (simp add: isConnected_processBatch failingEnv_def newManager_def renderable_def)
  have up: "isConnected (processBatch quietEnv notifyingConfig ?m [freshEvent]) = True"
    by (simp add: isConnected_processBatch quietEnv_def newManager_def)
  have queued: "isConnected (queueFailedEvent failingEnv DEFAULT_CONFIG notifyingConfig ?m
                  (taskEvent ''test-3'') (Some ''Network error'')) = False"
    using queueFailedEvent_effect [of failingEnv DEFAULT_CONFIG notifyingConfig ?m
            "taskEvent ''test-3''" "Some ''Network error''"]
    by simp
  have start: "isConnected ?m = True" "onConnectionStatusChange notifyingConfig = True"
    by (simp_all add: newManager_def notifyingConfig_def)
  from connection_callback_edge_triggered
          [of notifyingConfig ?m False failingEnv "[freshEvent]"
              DEFAULT_CONFIG "taskEvent ''test-3''" "Some ''Network error''"]
       connection_callback_edge_triggered
          [of notifyingConfig ?m False quietEnv "[freshEvent]"
              DEFAULT_CONFIG "taskEvent ''test-3''" "Some ''Network error''"]
  show ?thesis
    unfolding edgeTriggered_def down up queued start
    by (simp add: notifyingConfig_def)
qed

text \<open>A cycle that finds nothing eligible returns after pruning, with the trace it
  started with: no callback is called.\<close>

lemma processQueue_empty_cycle:
  assumes "\<not> isProcessing m"
    and "getEventsForRetry qcfg (fst (pruneFailedEvents qcfg (store m) (clock env (clockReads m))))
           (clock env (Suc (clockReads m))) = []"
  shows "\<exists>m'. processQueue env qcfg cfg m = Some m' \<and> trace m' = trace m \<and> \<not> isProcessing m'
              \<and> store m' = fst (pruneFailedEvents qcfg (store m) (clock env (clockReads m)))"
  unfolding processQueue_idle [OF assms(1)] Let_def using assms(2) by simp

text \<open>
  Claim C8 at a queue holding one event that has used up its retries, with a queue-size
  callback registered. The cycle acquires the guard and prunes the event, so the size
  goes from 1 to 0; nothing is eligible, the cycle returns at once and releases the
  guard, and the queue-size callback was never called.
\<close>

theorem processQueue_prune_only_cycle:
  "onQueueSizeChange notifyingConfig
   \<and> getQueueSize (store (newManager (storeOf [exhaustedEvent]))) = 1
   \<and> (case processQueue quietEnv DEFAULT_CONFIG notifyingConfig (newManager (storeOf [exhaustedEvent])) of
         None \<Rightarrow> False
       | Some m' \<Rightarrow> getQueueSize (store m') = 0 \<and> trace m' = [] \<and> \<not> isProcessing m')"
  by (simp add: processQueue_def Let_def pruneFailedEvents_def getEventsForRetry_def getQueueSize_def
        newManager_def getQueue_storeOf DEFAULT_CONFIG_def notifyingConfig_def exhaustedEvent_def)

end
